theory Spec2Isabelle
  imports Main "HOL-Library.Multiset" "HOL-Library.AList"
begin

section \<open>Data model of \<open>opennmt/utils/data.py\<close>\<close>

text \<open>
  A dataset is the finite list of the elements a single traversal yields. A transformation
  is a function on such lists. Every exception of the Python code and every runtime error
  of the dataset library is a value of \<open>error\<close>; a transformation that can fail returns
  \<open>error + result\<close> with \<open>Inl\<close> for the failure.

  Integers are Python's unbounded integers (or 64 bit tensors far from their bounds) and
  are modelled by \<open>int\<close>; \<open>div\<close> and \<open>mod\<close> on \<open>int\<close> round towards minus infinity as
  Python's \<open>//\<close> and \<open>%\<close> and as the tensor operations \<open>floordiv\<close> and \<open>floormod\<close> do.
  Division by zero is written out as an error wherever the source divides: a division of
  Python integers raises \<open>ZeroDivisionError\<close>, a division or modulo on tensors is an
  operation of the library and fails with its \<open>InvalidArgumentError\<close>.
\<close>

datatype error =
    ValueError            \<comment> \<open>raised by the Python code of the module\<close>
  | TypeError             \<comment> \<open>Python operation on a value of the wrong type\<close>
  | ZeroDivisionError     \<comment> \<open>division of Python integers by zero\<close>
  | InvalidArgumentError  \<comment> \<open>runtime error of the library, also a tensor division by zero\<close>

text \<open>A tensor of an example: a scalar or a sequence of token ids.\<close>

datatype tensor = Scalar int | Sequence "int list"

text \<open>
  A Python dictionary from field names to tensors, as an association list in insertion
  order; \<open>map_of\<close> is the lookup.
\<close>

type_synonym example_dict = "(string \<times> tensor) list"

subsection \<open>Dataset primitives\<close>

text \<open>\<open>dataset.filter(predicate)\<close>; an error of the predicate ends the traversal.\<close>

fun filter_ds :: "('a \<Rightarrow> error + bool) \<Rightarrow> 'a list \<Rightarrow> error + 'a list" where
  "filter_ds p [] = Inr []"
| "filter_ds p (x # xs) =
     (case p x of
        Inl e \<Rightarrow> Inl e
      | Inr keep \<Rightarrow>
          (case filter_ds p xs of
             Inl e \<Rightarrow> Inl e
           | Inr ys \<Rightarrow> Inr (if keep then x # ys else ys)))"

section \<open>\<open>filter_irregular_batches\<close>\<close>

text \<open>
  A batch of the training pipeline stacks (features, labels) examples; it is represented
  by the list of the examples stacked in it. The first flattened field is the stacked
  features, whose leading dimension is the number of stacked examples.
\<close>

definition first_field :: "('f \<times> 'l) list \<Rightarrow> 'f list" where
  "first_field x = map fst x"

definition irregular_predicate :: "int \<Rightarrow> ('f \<times> 'l) list \<Rightarrow> error + bool" where
  "irregular_predicate multiple x =
     (let batch_size = int (length (first_field x))
      in if multiple = 0 then Inl InvalidArgumentError
         else Inr (batch_size mod multiple = 0))"

definition filter_irregular_batches ::
  "int \<Rightarrow> ('f \<times> 'l) list list \<Rightarrow> error + ('f \<times> 'l) list list" where
  "filter_irregular_batches multiple dataset =
     (if multiple = 1 then Inr dataset
      else filter_ds (irregular_predicate multiple) dataset)"

section \<open>\<open>filter_examples_by_length\<close>\<close>

text \<open>
  The features length function returns one length or, for multi source features, a list of
  lengths; the labels length function returns one length. A configured maximum is
  \<open>None\<close>, one integer, or a list whose entries are integers or \<open>None\<close>.
\<close>

datatype length_value = Single int | Multi "int list"

datatype maximum_length = Maximum "int option" | Maxima "int option list"

text \<open>The two \<open>isinstance(_, list)\<close> normalisations of \<open>_length_constraints\<close>.\<close>

definition lengths_of :: "length_value \<Rightarrow> int list" where
  "lengths_of len = (case len of Single l \<Rightarrow> [l] | Multi ls \<Rightarrow> ls)"

definition maxima_of :: "maximum_length \<Rightarrow> int option list" where
  "maxima_of maximum = (case maximum of Maximum m \<Rightarrow> [m] | Maxima ms \<Rightarrow> ms)"

text \<open>The loop over \<open>zip(length, maximum_length)\<close> that appends the constraints.\<close>

fun constraints_loop :: "(int \<times> int option) list \<Rightarrow> bool list" where
  "constraints_loop [] = []"
| "constraints_loop ((l, maxlen) # rest) =
     (0 < l) # (case maxlen of None \<Rightarrow> [] | Some m \<Rightarrow> [l \<le> m]) @ constraints_loop rest"

definition length_constraints :: "length_value \<Rightarrow> maximum_length \<Rightarrow> bool list" where
  "length_constraints len maximum =
     (let lens = lengths_of len;
          maxs = maxima_of maximum;
          maxs = maxs @ replicate (length lens - length maxs) None
      in constraints_loop (zip lens maxs))"

text \<open>\<open>tf.reduce_all\<close> over the collected constraints.\<close>

definition reduce_all :: "bool list \<Rightarrow> bool" where
  "reduce_all cond = list_all id cond"

definition length_predicate ::
  "maximum_length \<Rightarrow> maximum_length \<Rightarrow> ('f \<Rightarrow> length_value) option \<Rightarrow>
   ('l \<Rightarrow> int) option \<Rightarrow> 'f \<times> 'l \<Rightarrow> bool" where
  "length_predicate maximum_features_length maximum_labels_length
     features_length_fn labels_length_fn example =
     (let features_length = map_option (\<lambda>f. f (fst example)) features_length_fn;
          labels_length = map_option (\<lambda>f. Single (f (snd example))) labels_length_fn;
          cond = [];
          cond = cond @ (case features_length of None \<Rightarrow> []
                   | Some fl \<Rightarrow> length_constraints fl maximum_features_length);
          cond = cond @ (case labels_length of None \<Rightarrow> []
                   | Some ll \<Rightarrow> length_constraints ll maximum_labels_length)
      in reduce_all cond)"

definition filter_examples_by_length ::
  "maximum_length \<Rightarrow> maximum_length \<Rightarrow> ('f \<Rightarrow> length_value) option \<Rightarrow>
   ('l \<Rightarrow> int) option \<Rightarrow> ('f \<times> 'l) list \<Rightarrow> ('f \<times> 'l) list" where
  "filter_examples_by_length maximum_features_length maximum_labels_length
     features_length_fn labels_length_fn dataset =
     (if features_length_fn = None \<and> labels_length_fn = None then dataset
      else filter (length_predicate maximum_features_length maximum_labels_length
                     features_length_fn labels_length_fn) dataset)"

text \<open>
  The retention rule in the words of the specification: the maximum at position \<open>i\<close> is
  the configured one when there is one and "no constraint" otherwise, and every observed
  length must be positive and not above its maximum.
\<close>

definition maximum_at :: "maximum_length \<Rightarrow> nat \<Rightarrow> int option" where
  "maximum_at maximum i =
     (if i < length (maxima_of maximum) then maxima_of maximum ! i else None)"

definition within_limits :: "length_value \<Rightarrow> maximum_length \<Rightarrow> bool" where
  "within_limits len maximum =
     list_all (\<lambda>i. 0 < lengths_of len ! i \<and>
                 (case maximum_at maximum i of None \<Rightarrow> True
                  | Some m \<Rightarrow> lengths_of len ! i \<le> m))
       [0 ..< length (lengths_of len)]"

definition side_retained :: "('a \<Rightarrow> length_value) option \<Rightarrow> maximum_length \<Rightarrow> 'a \<Rightarrow> bool" where
  "side_retained length_fn maximum x =
     (case length_fn of None \<Rightarrow> True | Some f \<Rightarrow> within_limits (f x) maximum)"

section \<open>\<open>batch_dataset\<close> and the grouping primitive\<close>

text \<open>
  \<open>_get_output_shapes\<close> reads one sample of the dataset and fails on an empty one. The
  sample stands for the structure of shapes computed from it.
\<close>

definition get_output_shapes :: "'a list \<Rightarrow> error + 'a" where
  "get_output_shapes dataset =
     (case dataset of [] \<Rightarrow> Inl InvalidArgumentError | sample # _ \<Rightarrow> Inr sample)"

text \<open>
  \<open>dataset.padded_batch(n, ...)\<close> groups consecutive elements, the last group possibly
  shorter. A batch is represented by the list of its examples; the padding of the
  variable length fields to a common shape is not represented.
\<close>

fun chunks :: "nat \<Rightarrow> 'a list \<Rightarrow> 'a list list" where
  "chunks n xs = (if n = 0 \<or> xs = [] then [] else take n xs # chunks n (drop n xs))"

declare chunks.simps [simp del]

type_synonym shapes = "nat list list"

definition batch_dataset :: "int \<Rightarrow> shapes option \<Rightarrow> 'a list \<Rightarrow> error + 'a list list" where
  "batch_dataset batch_size padded_shapes dataset =
     (case (case padded_shapes of
              Some given \<Rightarrow> Inr ()
            | None \<Rightarrow> (case get_output_shapes dataset of
                         Inl e \<Rightarrow> Inl e | Inr inferred \<Rightarrow> Inr ())) of
        Inl e \<Rightarrow> Inl e
      | Inr u \<Rightarrow>
          if batch_size \<le> 0 then Inl InvalidArgumentError
          else Inr (chunks (nat batch_size) dataset))"

text \<open>
  \<open>tf.data.experimental.group_by_window(key_func, reduce_func, window_size_func)\<close> of the
  dataset library: every element is appended to the pending group of its key; a group that
  reaches the window size of its key is handed to \<open>reduce_func\<close> and its result is emitted;
  at the end of the input the pending groups are reduced and emitted. A window size that
  is not positive is a runtime error. The pending groups are an association list from
  keys to buffers; the order in which the last groups are emitted is the order of this
  list (the library leaves it open).
\<close>

fun flush_groups ::
  "(int \<Rightarrow> 'a list \<Rightarrow> error + 'b list) \<Rightarrow> (int \<times> 'a list) list \<Rightarrow> error + 'b list" where
  "flush_groups reduce_func [] = Inr []"
| "flush_groups reduce_func ((key, window) # groups) =
     (case reduce_func key window of
        Inl e \<Rightarrow> Inl e
      | Inr out \<Rightarrow>
          (case flush_groups reduce_func groups of
             Inl e \<Rightarrow> Inl e
           | Inr rest \<Rightarrow> Inr (out @ rest)))"

fun group_loop ::
  "('a \<Rightarrow> error + int) \<Rightarrow> (int \<Rightarrow> 'a list \<Rightarrow> error + 'b list) \<Rightarrow> (int \<Rightarrow> error + int) \<Rightarrow>
   (int \<times> 'a list) list \<Rightarrow> 'a list \<Rightarrow> error + 'b list" where
  "group_loop key_func reduce_func window_size_func groups [] =
     flush_groups reduce_func groups"
| "group_loop key_func reduce_func window_size_func groups (x # xs) =
     (case key_func x of
        Inl e \<Rightarrow> Inl e
      | Inr key \<Rightarrow>
          (case window_size_func key of
             Inl e \<Rightarrow> Inl e
           | Inr window_size \<Rightarrow>
               if window_size \<le> 0 then Inl InvalidArgumentError
               else
                 let window = (case map_of groups key of None \<Rightarrow> [] | Some g \<Rightarrow> g) @ [x]
                 in if window_size \<le> int (length window)
                    then (case reduce_func key window of
                            Inl e \<Rightarrow> Inl e
                          | Inr out \<Rightarrow>
                              (case group_loop key_func reduce_func window_size_func
                                      (AList.delete key groups) xs of
                                 Inl e \<Rightarrow> Inl e
                               | Inr rest \<Rightarrow> Inr (out @ rest)))
                    else group_loop key_func reduce_func window_size_func
                           (AList.update key window groups) xs))"

definition group_by_window ::
  "('a \<Rightarrow> error + int) \<Rightarrow> (int \<Rightarrow> 'a list \<Rightarrow> error + 'b list) \<Rightarrow> (int \<Rightarrow> error + int) \<Rightarrow>
   'a list \<Rightarrow> error + 'b list" where
  "group_by_window key_func reduce_func window_size_func dataset =
     group_loop key_func reduce_func window_size_func [] dataset"

section \<open>\<open>batch_parallel_dataset\<close>\<close>

text \<open>
  \<open>//\<close> with a tensor operand (\<open>length // bucket_width\<close>,
  \<open>batch_size // (key * bucket_width)\<close>): the floor division of the library, which fails
  on a zero divisor.
\<close>

definition floordiv :: "int \<Rightarrow> int \<Rightarrow> error + int" where
  "floordiv a b = (if b = 0 then Inl InvalidArgumentError else Inr (a div b))"

text \<open>One \<open>bucket_id = tf.maximum(bucket_id, length // bucket_width)\<close> step.\<close>

definition bucket_step :: "error + int \<Rightarrow> int \<Rightarrow> int \<Rightarrow> error + int" where
  "bucket_step bucket_id len bucket_width =
     (case bucket_id of
        Inl e \<Rightarrow> Inl e
      | Inr b \<Rightarrow> (case floordiv len bucket_width of
                    Inl e \<Rightarrow> Inl e | Inr q \<Rightarrow> Inr (max b q)))"

definition key_func ::
  "int \<Rightarrow> ('f \<Rightarrow> length_value) option \<Rightarrow> ('l \<Rightarrow> int) option \<Rightarrow> 'f \<times> 'l \<Rightarrow> error + int" where
  "key_func bucket_width features_length_fn labels_length_fn example =
     (let features_length = map_option (\<lambda>f. f (fst example)) features_length_fn;
          labels_length = map_option (\<lambda>f. f (snd example)) labels_length_fn;
          features_length = (case features_length of
                               Some (Single l) \<Rightarrow> Some l
                             | Some (Multi ls) \<Rightarrow> None
                             | None \<Rightarrow> None);
          bucket_id = Inr 0;
          bucket_id = (case features_length of None \<Rightarrow> bucket_id
                       | Some l \<Rightarrow> bucket_step bucket_id l bucket_width);
          bucket_id = (case labels_length of None \<Rightarrow> bucket_id
                       | Some l \<Rightarrow> bucket_step bucket_id l bucket_width)
      in bucket_id)"

text \<open>
  \<open>_window_size_func\<close>; its \<open>batch_size\<close> is the variable of the enclosing function after
  \<open>batch_size = batch_size * batch_multiplier\<close>.
\<close>

definition window_size_func :: "int \<Rightarrow> int \<Rightarrow> int \<Rightarrow> int \<Rightarrow> int \<Rightarrow> error + int" where
  "window_size_func batch_size batch_multiplier batch_size_multiple bucket_width key =
     (let key = (if bucket_width > 1 then key + 1 else key)
      in case floordiv batch_size (key * bucket_width) of
           Inl e \<Rightarrow> Inl e
         | Inr sz \<Rightarrow>
             let required_multiple = batch_multiplier * batch_size_multiple;
                 sz = (if required_multiple > 1
                       then sz + required_multiple - sz mod required_multiple
                       else sz)
             in Inr (max sz required_multiple))"

text \<open>
  The result of \<open>batch_parallel_dataset\<close> is a transformation, or the \<open>ValueError\<close> raised
  while the transformation is built, before any dataset is given to it.
\<close>

definition batch_parallel_dataset ::
  "int \<Rightarrow> string \<Rightarrow> int \<Rightarrow> int \<Rightarrow> int option \<Rightarrow> ('f \<Rightarrow> length_value) option \<Rightarrow>
   ('l \<Rightarrow> int) option \<Rightarrow> shapes option \<Rightarrow>
   error + (('f \<times> 'l) list \<Rightarrow> error + ('f \<times> 'l) list list)" where
  "batch_parallel_dataset batch_size batch_type batch_multiplier batch_size_multiple
     bucket_width features_length_fn labels_length_fn padded_shapes =
     (let batch_size = batch_size * batch_multiplier
      in case bucket_width of
           None \<Rightarrow> Inr (batch_dataset batch_size padded_shapes)
         | Some width \<Rightarrow>
             if batch_type = ''examples''
             then Inr (group_by_window
                         (key_func width features_length_fn labels_length_fn)
                         (\<lambda>unused_key. batch_dataset batch_size padded_shapes)
                         (\<lambda>key. Inr batch_size))
             else if batch_type = ''tokens''
             then Inr (group_by_window
                         (key_func width features_length_fn labels_length_fn)
                         (\<lambda>unused_key. batch_dataset batch_size padded_shapes)
                         (window_size_func batch_size batch_multiplier batch_size_multiple
                            width))
             else Inl ValueError)"

text \<open>
  The effective length of the specification's data model: the maximum of the features
  length and the labels length, a list valued features length being ignored, and 0 when
  no length enters.
\<close>

definition effective_length ::
  "('f \<Rightarrow> length_value) option \<Rightarrow> ('l \<Rightarrow> int) option \<Rightarrow> 'f \<times> 'l \<Rightarrow> int" where
  "effective_length features_length_fn labels_length_fn example =
     max (max 0 (case features_length_fn of
                   None \<Rightarrow> 0
                 | Some f \<Rightarrow> (case f (fst example) of Single l \<Rightarrow> l | Multi ls \<Rightarrow> 0)))
         (case labels_length_fn of None \<Rightarrow> 0 | Some g \<Rightarrow> g (snd example))"

text \<open>
  The window size in the words of the specification: the raw size rounded up to the
  nearest multiple of the required multiple (an exact multiple stays), and not below it.
\<close>

definition round_up_to_multiple :: "int \<Rightarrow> int \<Rightarrow> int" where
  "round_up_to_multiple sz multiple = ((sz + multiple - 1) div multiple) * multiple"

definition specified_window_size :: "int \<Rightarrow> int \<Rightarrow> int \<Rightarrow> int \<Rightarrow> int \<Rightarrow> int" where
  "specified_window_size batch_size batch_multiplier batch_size_multiple bucket_width key =
     (let scaled_batch_size = batch_size * batch_multiplier;
          k = (if bucket_width > 1 then key + 1 else key);
          raw_size = scaled_batch_size div (k * bucket_width);
          product = batch_multiplier * batch_size_multiple;
          rounded = (if product > 1 then round_up_to_multiple raw_size product else raw_size)
      in max rounded product)"

section \<open>\<open>inference_pipeline\<close>\<close>

text \<open>
  An element of an inference dataset is a dictionary of tensors or some other structure
  (a bare tensor).
\<close>

datatype element = Dict example_dict | Plain tensor

text \<open>\<open>dataset.map(f)\<close> for a function that can fail, and \<open>enumerate_dataset()\<close>.\<close>

fun map_ds :: "('a \<Rightarrow> error + 'b) \<Rightarrow> 'a list \<Rightarrow> error + 'b list" where
  "map_ds f [] = Inr []"
| "map_ds f (x # xs) =
     (case f x of
        Inl e \<Rightarrow> Inl e
      | Inr y \<Rightarrow> (case map_ds f xs of Inl e \<Rightarrow> Inl e | Inr ys \<Rightarrow> Inr (y # ys)))"

definition enumerate_dataset :: "'a list \<Rightarrow> (int \<times> 'a) list" where
  "enumerate_dataset dataset = zip (map int [0 ..< length dataset]) dataset"

text \<open>
  \<open>x["index"] = index\<close>: in a dictionary an existing key keeps its place and gets the new
  value, a new key is appended; item assignment on any other structure is a \<open>TypeError\<close>.
\<close>

definition inject_index :: "int \<Rightarrow> element \<Rightarrow> error + element" where
  "inject_index index x =
     (case x of
        Dict d \<Rightarrow> Inr (Dict (AList.update ''index'' (Scalar index) d))
      | Plain t \<Rightarrow> Inl TypeError)"

definition inference_key_func :: "(element \<Rightarrow> length_value) \<Rightarrow> int \<Rightarrow> element \<Rightarrow> error + int" where
  "inference_key_func length_fn bucket_width x =
     (let len = length_fn x;
          bucket_id = 0
      in case len of
           Multi ls \<Rightarrow> Inr bucket_id
         | Single l \<Rightarrow> (case floordiv l bucket_width of
                         Inl e \<Rightarrow> Inl e | Inr q \<Rightarrow> Inr (max bucket_id q)))"

definition is_dict :: "element \<Rightarrow> bool" where
  "is_dict x = (case x of Dict d \<Rightarrow> True | Plain t \<Rightarrow> False)"

text \<open>
  \<open>inference_pipeline(...)(dataset)\<close>. \<open>prefetch\<close> and the number of threads of \<open>map\<close> do
  not change the sequence of elements and are left out.
\<close>

definition inference_pipeline ::
  "int \<Rightarrow> (element \<Rightarrow> element) option \<Rightarrow> int option \<Rightarrow> (element \<Rightarrow> length_value) option \<Rightarrow>
   element list \<Rightarrow> error + element list list" where
  "inference_pipeline batch_size process_fn bucket_width length_fn dataset =
     (let dataset = (case process_fn of None \<Rightarrow> dataset | Some f \<Rightarrow> map f dataset)
      in case bucket_width of
           None \<Rightarrow> batch_dataset batch_size None dataset
         | Some width \<Rightarrow>
             if width > 0 then
               (case length_fn of
                  None \<Rightarrow> Inl ValueError
                | Some len_fn \<Rightarrow>
                    (case get_output_shapes dataset of
                       Inl e \<Rightarrow> Inl e
                     | Inr sample \<Rightarrow>
                         if \<not> is_dict sample then Inl ValueError
                         else
                           (case map_ds (\<lambda>(index, x). inject_index index x)
                                   (enumerate_dataset dataset) of
                              Inl e \<Rightarrow> Inl e
                            | Inr indexed \<Rightarrow>
                                group_by_window (inference_key_func len_fn width)
                                  (\<lambda>unused_key. batch_dataset batch_size None)
                                  (\<lambda>key. Inr batch_size) indexed)))
             else batch_dataset batch_size None dataset)"

text \<open>
  Reading the tag back and removing it, for the caller that restores the input order.
\<close>

definition index_of :: "element \<Rightarrow> int" where
  "index_of x =
     (case x of
        Dict d \<Rightarrow> (case map_of d ''index'' of Some (Scalar i) \<Rightarrow> i | other \<Rightarrow> 0)
      | Plain t \<Rightarrow> 0)"

definition drop_index :: "element \<Rightarrow> element" where
  "drop_index x = (case x of Dict d \<Rightarrow> Dict (AList.delete ''index'' d) | Plain t \<Rightarrow> Plain t)"

text \<open>A sample length function: the number of tokens under \<open>"ids"\<close>.\<close>

definition ids_length :: "element \<Rightarrow> length_value" where
  "ids_length x =
     (case x of
        Dict d \<Rightarrow> (case map_of d ''ids'' of
                    Some (Sequence s) \<Rightarrow> Single (int (length s)) | other \<Rightarrow> Single 0)
      | Plain t \<Rightarrow> Single 0)"

section \<open>\<open>random_shard\<close>\<close>

text \<open>
  \<open>dataset.skip(n)\<close> and \<open>dataset.take(n)\<close>; a negative count skips, respectively takes,
  everything. \<open>dataset.shuffle(buffer_size)\<close> is random: its outcome, a reordering of the
  dataset, is a parameter of the model; a buffer size that is not positive is a runtime
  error.
\<close>

definition skip_ds :: "int \<Rightarrow> 'a list \<Rightarrow> 'a list" where
  "skip_ds n dataset = (if n < 0 then [] else drop (nat n) dataset)"

definition take_ds :: "int \<Rightarrow> 'a list \<Rightarrow> 'a list" where
  "take_ds n dataset = (if n < 0 then dataset else take (nat n) dataset)"

definition shuffle_ds :: "int \<Rightarrow> ('a list \<Rightarrow> 'a list) \<Rightarrow> 'a list \<Rightarrow> error + 'a list" where
  "shuffle_ds buffer_size outcome dataset =
     (if buffer_size \<le> 0 then Inl InvalidArgumentError else Inr (outcome dataset))"

text \<open>
  \<open>np.linspace(0, dataset_size, num, endpoint=False, dtype=np.int64)\<close>: the \<open>i\<close>-th value
  is \<open>i * dataset_size / num\<close> rounded down. The model computes it in exact arithmetic.
\<close>

definition linspace_offsets :: "int \<Rightarrow> int \<Rightarrow> int list" where
  "linspace_offsets dataset_size num =
     map (\<lambda>i. (int i * dataset_size) div num) [0 ..< nat num]"

text \<open>
  \<open>random_shard(shard_size, dataset_size)\<close> computes the offsets when it is called; the
  validation errors of that computation are the outer error. The transformation it returns
  takes the outcome of the shuffle of the offsets and the dataset.
\<close>

definition random_shard ::
  "int \<Rightarrow> int \<Rightarrow> error + ((int list \<Rightarrow> int list) \<Rightarrow> 'a list \<Rightarrow> error + 'a list)" where
  "random_shard shard_size dataset_size =
     (if shard_size = 0 then Inl ZeroDivisionError
      else
        let num_shards = - ((- dataset_size) div shard_size)
        in if num_shards < 0 then Inl ValueError
           else
             let offsets = linspace_offsets dataset_size num_shards
             in Inr (\<lambda>outcome dataset.
                  case shuffle_ds num_shards outcome offsets of
                    Inl e \<Rightarrow> Inl e
                  | Inr sharded_dataset \<Rightarrow>
                      Inr (concat (map (\<lambda>offset. take_ds shard_size (skip_ds offset dataset))
                                     sharded_dataset))))"

section \<open>\<open>training_pipeline\<close>\<close>

text \<open>
  \<open>dataset.shard(num_shards, index)\<close> keeps the elements whose position is \<open>index\<close> modulo
  \<open>num_shards\<close>; an index outside \<open>0 \<le> index < num_shards\<close> is a runtime error.
\<close>

definition shard_ds :: "int \<Rightarrow> int \<Rightarrow> 'a list \<Rightarrow> error + 'a list" where
  "shard_ds num_shards index dataset =
     (if index < 0 \<or> num_shards \<le> index then Inl InvalidArgumentError
      else Inr (map snd (filter (\<lambda>(position, x). position mod num_shards = index)
                           (enumerate_dataset dataset))))"

text \<open>
  One traversal of the pipeline built by \<open>training_pipeline\<close>, up to the repeat stage. The
  two random shuffles take their outcomes as parameters. \<open>prefetch\<close>, the number of threads
  of \<open>map\<close> and the logging do not change the sequence of batches and are left out.
\<close>

definition training_epoch ::
  "int \<Rightarrow> string \<Rightarrow> int \<Rightarrow> int \<Rightarrow> ('f \<times> 'l \<Rightarrow> 'f \<times> 'l) option \<Rightarrow> int option \<Rightarrow>
   ('f \<Rightarrow> length_value) option \<Rightarrow> ('l \<Rightarrow> int) option \<Rightarrow> maximum_length \<Rightarrow> maximum_length \<Rightarrow>
   int option \<Rightarrow> int \<Rightarrow> int \<Rightarrow> int option \<Rightarrow>
   (int list \<Rightarrow> int list) \<Rightarrow> (('f \<times> 'l) list \<Rightarrow> ('f \<times> 'l) list) \<Rightarrow>
   ('f \<times> 'l) list \<Rightarrow> error + ('f \<times> 'l) list list" where
  "training_epoch batch_size batch_type batch_multiplier batch_size_multiple process_fn
     bucket_width features_length_fn labels_length_fn maximum_features_length
     maximum_labels_length dataset_size num_shards shard_index shuffle_buffer_size
     offsets_outcome examples_outcome dataset =
     (let num_examples = dataset_size;
          sharded = (if num_shards > 1 then shard_ds num_shards shard_index dataset
                     else Inr dataset);
          num_examples = (if num_shards > 1
                          then map_option (\<lambda>n. n div num_shards) num_examples
                          else num_examples)
      in case sharded of
           Inl e \<Rightarrow> Inl e
         | Inr dataset \<Rightarrow>
             (case (case shuffle_buffer_size of
                      None \<Rightarrow> Inr dataset
                    | Some buffer_size \<Rightarrow>
                        if buffer_size = 0 then Inr dataset
                        else
                          (case num_examples of
                             None \<Rightarrow> shuffle_ds buffer_size examples_outcome dataset
                           | Some n \<Rightarrow>
                               if buffer_size < 0 \<or> buffer_size > n
                               then shuffle_ds n examples_outcome dataset
                               else if buffer_size < n
                               then (case random_shard buffer_size n of
                                       Inl e \<Rightarrow> Inl e
                                     | Inr transformation \<Rightarrow>
                                         (case transformation offsets_outcome dataset of
                                            Inl e \<Rightarrow> Inl e
                                          | Inr randomly_sharded \<Rightarrow>
                                              shuffle_ds buffer_size examples_outcome
                                                randomly_sharded))
                               else shuffle_ds buffer_size examples_outcome dataset)) of
                Inl e \<Rightarrow> Inl e
              | Inr dataset \<Rightarrow>
                  let dataset = (case process_fn of None \<Rightarrow> dataset
                                 | Some f \<Rightarrow> map f dataset);
                      dataset = filter_examples_by_length maximum_features_length
                                  maximum_labels_length features_length_fn labels_length_fn
                                  dataset
                  in case batch_parallel_dataset batch_size batch_type batch_multiplier
                            batch_size_multiple bucket_width features_length_fn
                            labels_length_fn None of
                       Inl e \<Rightarrow> Inl e
                     | Inr transformation \<Rightarrow>
                         (case transformation dataset of
                            Inl e \<Rightarrow> Inl e
                          | Inr batches \<Rightarrow>
                              filter_irregular_batches batch_multiplier batches)))"

text \<open>
  The output of the pipeline: the batches of one traversal, or, after \<open>dataset.repeat()\<close>,
  one traversal after another, each with its own shuffle outcomes.
\<close>

datatype 'b traversal = Single_pass "error + 'b list" | Repeated "nat \<Rightarrow> error + 'b list"

definition training_pipeline ::
  "int \<Rightarrow> string \<Rightarrow> int \<Rightarrow> int \<Rightarrow> ('f \<times> 'l \<Rightarrow> 'f \<times> 'l) option \<Rightarrow> int option \<Rightarrow>
   ('f \<Rightarrow> length_value) option \<Rightarrow> ('l \<Rightarrow> int) option \<Rightarrow> maximum_length \<Rightarrow> maximum_length \<Rightarrow>
   bool \<Rightarrow> int option \<Rightarrow> int \<Rightarrow> int \<Rightarrow> int option \<Rightarrow>
   (nat \<Rightarrow> int list \<Rightarrow> int list) \<Rightarrow> (nat \<Rightarrow> ('f \<times> 'l) list \<Rightarrow> ('f \<times> 'l) list) \<Rightarrow>
   ('f \<times> 'l) list \<Rightarrow> ('f \<times> 'l) list traversal" where
  "training_pipeline batch_size batch_type batch_multiplier batch_size_multiple process_fn
     bucket_width features_length_fn labels_length_fn maximum_features_length
     maximum_labels_length single_pass dataset_size num_shards shard_index
     shuffle_buffer_size offsets_outcomes examples_outcomes dataset =
     (let epoch = (\<lambda>e. training_epoch batch_size batch_type batch_multiplier
                          batch_size_multiple process_fn bucket_width features_length_fn
                          labels_length_fn maximum_features_length maximum_labels_length
                          dataset_size num_shards shard_index shuffle_buffer_size
                          (offsets_outcomes e) (examples_outcomes e) dataset)
      in if \<not> single_pass then Repeated epoch else Single_pass (epoch 0))"

text \<open>
  What the consumer has received when the source has been traversed at most \<open>n\<close> times.
  The repeat stage of the dataset library starts the next traversal when one ends, and ends
  itself when a traversal yields nothing.
\<close>

fun repeat_take :: "(nat \<Rightarrow> error + 'b list) \<Rightarrow> nat \<Rightarrow> nat \<Rightarrow> error + 'b list" where
  "repeat_take epoch e 0 = Inr []"
| "repeat_take epoch e (Suc n) =
     (case epoch e of
        Inl err \<Rightarrow> Inl err
      | Inr batches \<Rightarrow>
          if batches = [] then Inr []
          else (case repeat_take epoch (Suc e) n of
                  Inl err \<Rightarrow> Inl err
                | Inr rest \<Rightarrow> Inr (batches @ rest)))"

definition delivered :: "'b traversal \<Rightarrow> nat \<Rightarrow> error + 'b list" where
  "delivered output n =
     (case output of
        Single_pass batches \<Rightarrow> (if n = 0 then Inr [] else batches)
      | Repeated epoch \<Rightarrow> repeat_take epoch 0 n)"

section \<open>Properties\<close>

lemma filter_ds_total:
  assumes "\<And>x. x \<in> set xs \<Longrightarrow> p x = Inr (q x)"
  shows "filter_ds p xs = Inr (filter q xs)"
  using assms by (induction xs) simp_all

text \<open>
  C7. \<open>filter_irregular_batches multiple\<close> is the identity when \<open>multiple = 1\<close>. For
  every \<open>multiple > 1\<close> it returns exactly the batches whose size is divisible by
  \<open>multiple\<close>, in their original order; the sizes of the result are the subsequence of
  the input sizes \<open>s\<close> with \<open>s mod multiple = 0\<close>.
\<close>

theorem filter_irregular_batches_subsequence:
  "filter_irregular_batches 1 bs = Inr bs \<and>
   (1 < m \<longrightarrow>
      filter_irregular_batches m bs
        = Inr (filter (\<lambda>b. int (length (first_field b)) mod m = 0) bs) \<and>
      (\<exists>ys. filter_irregular_batches m bs = Inr ys \<and>
         map (\<lambda>b. int (length b)) ys
           = filter (\<lambda>s. s mod m = 0) (map (\<lambda>b. int (length b)) bs)))"
proof -
  have one: "filter_irregular_batches 1 bs = Inr bs"
    by (simp add: filter_irregular_batches_def)
  have many: "filter_irregular_batches m bs
        = Inr (filter (\<lambda>b. int (length (first_field b)) mod m = 0) bs)" if "1 < m"
  proof -
    have "filter_ds (irregular_predicate m) bs
        = Inr (filter (\<lambda>b. int (length (first_field b)) mod m = 0) bs)"
      using that by (intro filter_ds_total) (simp add: irregular_predicate_def)
    with that show ?thesis by (simp add: filter_irregular_batches_def)
  qed
  have sizes: "map (\<lambda>b. int (length b)) (filter (\<lambda>b. int (length (first_field b)) mod m = 0) bs)
        = filter (\<lambda>s. s mod m = 0) (map (\<lambda>b. int (length b)) bs)"
    by (induction bs) (simp_all add: first_field_def)
  show ?thesis using one many sizes by simp
qed

theorem filter_irregular_batches_subsequence_witness:
  "filter_irregular_batches 1 [[(1::nat, 2::nat)]] = Inr [[(1, 2)]] \<and>
   filter_irregular_batches 2 [[(1::nat, 5::nat), (2, 6)], [(3, 7)], [(4, 8), (5, 9)]]
     = Inr [[(1, 5), (2, 6)], [(4, 8), (5, 9)]]"
  using filter_irregular_batches_subsequence
    [of "[[(1::nat, 2::nat)]]" 2 ]
    filter_irregular_batches_subsequence
    [of "[[(1::nat, 5::nat), (2, 6)], [(3, 7)], [(4, 8), (5, 9)]]" 2]
  by (simp add: first_field_def)

text \<open>
  C10. For every dictionary \<open>x\<close> and index \<open>i\<close>, \<open>_inject_index\<close> returns a dictionary
  that holds \<open>i\<close> under \<open>"index"\<close> and every other field with the value it has in \<open>x\<close>; its
  keys are the keys of \<open>x\<close> and \<open>"index"\<close>, and the entries under the other keys are the
  same, in the same order: no other field is added, removed or modified.
\<close>

theorem inject_index_frame:
  "\<exists>d'. inject_index i (Dict d) = Inr (Dict d') \<and>
     map_of d' ''index'' = Some (Scalar i) \<and>
     (\<forall>k. k \<noteq> ''index'' \<longrightarrow> map_of d' k = map_of d k) \<and>
     set (map fst d') = insert ''index'' (set (map fst d)) \<and>
     AList.delete ''index'' d' = AList.delete ''index'' d"
proof -
  have "set (map fst (AList.update ''index'' (Scalar i) d)) = insert ''index'' (set (map fst d))"
    by (induction d) auto
  then show ?thesis
    by (simp add: inject_index_def update_conv' delete_update_same)
qed

theorem inject_index_frame_witness:
  "inject_index 3 (Dict [(''ids'', Sequence [7, 8]), (''length'', Scalar 2)])
     = Inr (Dict [(''ids'', Sequence [7, 8]), (''length'', Scalar 2), (''index'', Scalar 3)]) \<and>
   inject_index 4 (Dict [(''index'', Scalar 9), (''ids'', Sequence [7])])
     = Inr (Dict [(''index'', Scalar 4), (''ids'', Sequence [7])])"
  using inject_index_frame [of 3 "[(''ids'', Sequence [7, 8]), (''length'', Scalar 2)]"]
    inject_index_frame [of 4 "[(''index'', Scalar 9), (''ids'', Sequence [7])]"]
  by (simp add: inject_index_def)

lemma constraints_loop_all:
  "reduce_all (constraints_loop ps)
     = list_all (\<lambda>(l, maxlen). 0 < l \<and> (case maxlen of None \<Rightarrow> True | Some m \<Rightarrow> l \<le> m)) ps"
  by (induction ps rule: constraints_loop.induct)
     (simp_all add: reduce_all_def split: option.splits)

lemma padded_nth:
  "i < length lens \<Longrightarrow>
   (maxima_of maximum @ replicate (length lens - length (maxima_of maximum)) None) ! i
     = maximum_at maximum i"
  by (simp add: maximum_at_def nth_append)

lemma length_constraints_within_limits:
  "reduce_all (length_constraints len maximum) = within_limits len maximum"
proof -
  let ?ls = "lengths_of len"
  let ?ms = "maxima_of maximum @ replicate (length ?ls - length (maxima_of maximum)) None"
  have len: "length (zip ?ls ?ms) = length ?ls" by simp
  have "reduce_all (length_constraints len maximum)
      = (\<forall>i < length ?ls. 0 < ?ls ! i \<and> (case ?ms ! i of None \<Rightarrow> True | Some m \<Rightarrow> ?ls ! i \<le> m))"
    unfolding length_constraints_def Let_def constraints_loop_all list_all_length len
    by (auto simp del: replicate_eq_replicate)
  also have "\<dots> = (\<forall>i < length ?ls. 0 < ?ls ! i \<and>
       (case maximum_at maximum i of None \<Rightarrow> True | Some m \<Rightarrow> ?ls ! i \<le> m))"
    using padded_nth [of _ ?ls maximum] by (auto simp: lengths_of_def)
  also have "\<dots> = within_limits len maximum"
    by (auto simp: within_limits_def list_all_iff)
  finally show ?thesis .
qed

lemma length_predicate_sides:
  "length_predicate mf ml ffn lfn (features, labels)
     = (side_retained ffn mf features \<and> side_retained (map_option (\<lambda>g l. Single (g l)) lfn) ml labels)"
proof -
  have app: "reduce_all (xs @ ys) = (reduce_all xs \<and> reduce_all ys)" for xs ys
    by (simp add: reduce_all_def)
  have nil: "reduce_all []" by (simp add: reduce_all_def)
  show ?thesis
    by (cases ffn; cases lfn)
       (simp_all add: length_predicate_def side_retained_def app nil
          length_constraints_within_limits)
qed

lemma within_limits_take:
  "within_limits len (Maxima ms) = within_limits len (Maxima (take (length (lengths_of len)) ms))"
  by (auto simp: within_limits_def maximum_at_def maxima_of_def list_all_iff
        split: option.splits)

text \<open>
  C4. \<open>filter_examples_by_length\<close> is the identity when both length functions are unset.
  Otherwise it keeps exactly the examples for which every side with a length function is
  within its limits: after normalising lengths and maxima to lists, every observed length
  is positive and not above the maximum at its position, a missing maximum being no
  constraint. Maxima beyond the number of observed lengths do not matter.
\<close>

theorem filter_examples_by_length_spec:
  "filter_examples_by_length mf ml None None ds = ds \<and>
   (ffn \<noteq> None \<or> lfn \<noteq> None \<longrightarrow>
      filter_examples_by_length mf ml ffn lfn ds
        = filter (\<lambda>(features, labels).
            side_retained ffn mf features \<and> side_retained (map_option (\<lambda>g l. Single (g l)) lfn) ml labels) ds) \<and>
   (reduce_all (length_constraints len (Maxima ms))
      = reduce_all (length_constraints len (Maxima (take (length (lengths_of len)) ms))))"
proof -
  have ident: "filter_examples_by_length mf ml None None ds = ds"
    by (simp add: filter_examples_by_length_def)
  have pred: "length_predicate mf ml ffn lfn
      = (\<lambda>(features, labels). side_retained ffn mf features \<and> side_retained (map_option (\<lambda>g l. Single (g l)) lfn) ml labels)"
    by (rule ext) (simp add: length_predicate_sides split: prod.splits)
  have filt: "filter_examples_by_length mf ml ffn lfn ds
        = filter (\<lambda>(features, labels).
            side_retained ffn mf features \<and> side_retained (map_option (\<lambda>g l. Single (g l)) lfn) ml labels) ds"
    if "ffn \<noteq> None \<or> lfn \<noteq> None"
    using that unfolding filter_examples_by_length_def pred by auto
  have beyond: "reduce_all (length_constraints len (Maxima ms))
      = reduce_all (length_constraints len (Maxima (take (length (lengths_of len)) ms)))"
    unfolding length_constraints_within_limits by (rule within_limits_take)
  show ?thesis using ident filt beyond by blast
qed

theorem filter_examples_by_length_spec_witness:
  "filter_examples_by_length (Maxima [Some 5]) (Maximum (Some 8)) None None
     [([3, 4 :: int], 2), ([6, 1], 2), ([0, 1], 2), ([3, 4], 9 :: int)]
     = [([3, 4], 2), ([6, 1], 2), ([0, 1], 2), ([3, 4], 9)] \<and>
   filter_examples_by_length (Maxima [Some 5]) (Maximum (Some 8)) (Some Multi) (Some id)
     [([3, 4], 2), ([6, 1], 2), ([0, 1], 2), ([3, 4], 9 :: int), ([5, 70], 8)]
     = [([3, 4], 2), ([5, 70], 8)] \<and>
   reduce_all (length_constraints (Multi [3, 4]) (Maxima [Some 5, None, Some 1]))"
  using filter_examples_by_length_spec
    [of "Maxima [Some 5]" "Maximum (Some 8)"
        "[([3, 4], 2), ([6, 1], 2), ([0, 1], 2), ([3, 4], 9 :: int), ([5, 70], 8)]"
        "Some Multi" "Some id" "Multi [3, 4]" "[Some 5, None, Some 1]"]
    filter_examples_by_length_spec
    [of "Maxima [Some 5]" "Maximum (Some 8)"
        "[([3, 4], 2), ([6, 1], 2), ([0, 1], 2), ([3, 4], 9 :: int)]"
        "None :: (int list \<Rightarrow> length_value) option" "None :: (int \<Rightarrow> int) option"
        "Multi [3, 4]" "[Some 5, None, Some 1]"]
  by (simp add: side_retained_def within_limits_def maximum_at_def maxima_of_def
        lengths_of_def length_constraints_def reduce_all_def)

lemma next_multiple:
  fixes raw p :: int
  shows "raw + p - raw mod p = p * (raw div p + 1)"
  by (simp add: algebra_simps minus_mod_eq_mult_div)

lemma round_up_split:
  fixes raw p :: int
  assumes "1 < p"
  shows "round_up_to_multiple raw p = p * (raw div p + (if raw mod p = 0 then 0 else 1))"
proof -
  let ?r = "raw mod p"
  have r: "0 \<le> ?r" "?r < p" using assms by simp_all
  have "raw + p - 1 = p * (raw div p) + (?r + p - 1)"
    by (simp add: algebra_simps)
  then have "(raw + p - 1) div p = raw div p + (?r + p - 1) div p"
    using assms by (metis div_mult_self4 less_irrefl not_one_less_zero)
  moreover have "(?r + p - 1) div p = (if ?r = 0 then 0 else 1)"
  proof (cases "?r = 0")
    case True
    then show ?thesis using assms by (simp add: div_pos_pos_trivial)
  next
    case False
    then have "1 \<le> ?r" using r by linarith
    have "?r + p - 1 = p * 1 + (?r - 1)" by simp
    then have "(?r + p - 1) div p = 1 + (?r - 1) div p"
      using assms by (metis div_mult_self4 less_irrefl not_one_less_zero)
    also have "(?r - 1) div p = 0"
      using \<open>1 \<le> ?r\<close> r by (simp add: div_pos_pos_trivial)
    finally show ?thesis using False by simp
  qed
  ultimately show ?thesis
    by (simp add: round_up_to_multiple_def mult.commute)
qed

lemma window_size_func_eq:
  assumes "(if 1 < bw then k + 1 else k) * bw \<noteq> 0"
  shows "window_size_func B bm bsm bw k =
     Inr (let raw = B div ((if 1 < bw then k + 1 else k) * bw); p = bm * bsm
          in max (if 1 < p then raw + p - raw mod p else raw) p)"
  using assms by (simp add: window_size_func_def floordiv_def Let_def)


text \<open>
  What \<open>_window_size_func\<close> computes. For \<open>batch_type = "tokens"\<close> the transformation
  groups with \<open>_window_size_func\<close> over the scaled batch size
  \<open>batch_size * batch_multiplier\<close>. With \<open>k' = k + 1\<close> when \<open>bucket_width > 1\<close> (else
  \<open>k' = k\<close>), a nonzero denominator \<open>k' * bucket_width\<close>, the raw size
  \<open>raw = scaled div (k' * bucket_width)\<close> and the product
  \<open>p = batch_multiplier * batch_size_multiple\<close>, the window size \<open>w\<close> is never below \<open>p\<close>.
  When \<open>p > 1\<close> and \<open>raw \<ge> 0\<close>, \<open>w\<close> is the least multiple of \<open>p\<close> strictly above \<open>raw\<close>:
  the nearest multiple above a raw size that is not a multiple, and \<open>raw + p\<close> for a raw
  size that already is a multiple. When \<open>p \<le> 1\<close>, \<open>w = max raw p\<close>.
\<close>

lemma window_size_func_tokens:
  fixes batch_size bm bsm bw k :: int
  defines "k' \<equiv> (if 1 < bw then k + 1 else k)"
  defines "raw \<equiv> (batch_size * bm) div (k' * bw)"
  defines "p \<equiv> bm * bsm"
  assumes nonzero: "k' * bw \<noteq> 0"
  shows "batch_parallel_dataset batch_size ''tokens'' bm bsm (Some bw) ffn lfn ps
           = Inr (group_by_window (key_func bw ffn lfn)
                    (\<lambda>unused_key. batch_dataset (batch_size * bm) ps)
                    (window_size_func (batch_size * bm) bm bsm bw)) \<and>
         (\<exists>w. window_size_func (batch_size * bm) bm bsm bw k = Inr w \<and> p \<le> w \<and>
            (1 < p \<and> 0 \<le> raw \<longrightarrow>
               w = p * (raw div p + 1) \<and> p dvd w \<and> raw < w \<and> w \<le> raw + p) \<and>
            (1 < p \<and> 0 \<le> raw \<and> raw mod p \<noteq> 0 \<longrightarrow> w = round_up_to_multiple raw p) \<and>
            (1 < p \<and> 0 \<le> raw \<and> raw mod p = 0 \<longrightarrow> w = raw + p) \<and>
            (p \<le> 1 \<longrightarrow> w = max raw p))"
proof -
  define w where "w = max (if 1 < p then raw + p - raw mod p else raw) p"
  have val: "window_size_func (batch_size * bm) bm bsm bw k = Inr w"
    using nonzero unfolding w_def raw_def p_def k'_def
    by (simp add: window_size_func_eq Let_def)
  have floor: "p \<le> w" by (simp add: w_def)
  have next_up: "w = p * (raw div p + 1)" if "1 < p" "0 \<le> raw"
  proof -
    have q: "0 \<le> raw div p" using that by (simp add: pos_imp_zdiv_nonneg_iff)
    have "p * 1 \<le> p * (raw div p + 1)" using that q by (intro mult_left_mono) simp_all
    then show ?thesis using that by (simp add: w_def next_multiple)
  qed
  have above: "1 < p \<and> 0 \<le> raw \<longrightarrow>
      w = p * (raw div p + 1) \<and> p dvd w \<and> raw < w \<and> w \<le> raw + p"
  proof (intro impI, elim conjE)
    assume h: "1 < p" "0 \<le> raw"
    have "0 \<le> raw mod p" "raw mod p < p" using h by simp_all
    then have "raw < raw + p - raw mod p" "raw + p - raw mod p \<le> raw + p" by linarith+
    then show "w = p * (raw div p + 1) \<and> p dvd w \<and> raw < w \<and> w \<le> raw + p"
      using next_up [OF h] by (simp add: next_multiple)
  qed
  have inexact: "1 < p \<and> 0 \<le> raw \<and> raw mod p \<noteq> 0 \<longrightarrow> w = round_up_to_multiple raw p"
    using next_up by (simp add: round_up_split)
  have exact: "1 < p \<and> 0 \<le> raw \<and> raw mod p = 0 \<longrightarrow> w = raw + p"
    using next_up next_multiple [of raw p] by auto
  have small: "p \<le> 1 \<longrightarrow> w = max raw p" by (simp add: w_def)
  have build: "batch_parallel_dataset batch_size ''tokens'' bm bsm (Some bw) ffn lfn ps
           = Inr (group_by_window (key_func bw ffn lfn)
                    (\<lambda>unused_key. batch_dataset (batch_size * bm) ps)
                    (window_size_func (batch_size * bm) bm bsm bw))"
    by (simp add: batch_parallel_dataset_def Let_def)
  from val floor above inexact exact small
  have "window_size_func (batch_size * bm) bm bsm bw k = Inr w \<and> p \<le> w \<and>
            (1 < p \<and> 0 \<le> raw \<longrightarrow>
               w = p * (raw div p + 1) \<and> p dvd w \<and> raw < w \<and> w \<le> raw + p) \<and>
            (1 < p \<and> 0 \<le> raw \<and> raw mod p \<noteq> 0 \<longrightarrow> w = round_up_to_multiple raw p) \<and>
            (1 < p \<and> 0 \<le> raw \<and> raw mod p = 0 \<longrightarrow> w = raw + p) \<and>
            (p \<le> 1 \<longrightarrow> w = max raw p)"
    by (intro conjI)
  then have "\<exists>w. window_size_func (batch_size * bm) bm bsm bw k = Inr w \<and> p \<le> w \<and>
            (1 < p \<and> 0 \<le> raw \<longrightarrow>
               w = p * (raw div p + 1) \<and> p dvd w \<and> raw < w \<and> w \<le> raw + p) \<and>
            (1 < p \<and> 0 \<le> raw \<and> raw mod p \<noteq> 0 \<longrightarrow> w = round_up_to_multiple raw p) \<and>
            (1 < p \<and> 0 \<le> raw \<and> raw mod p = 0 \<longrightarrow> w = raw + p) \<and>
            (p \<le> 1 \<longrightarrow> w = max raw p)"
    by (rule exI)
  with build show ?thesis by (rule conjI)
qed

lemma window_size_func_tokens_example:
  "window_size_func (10 * 2) 2 3 5 0 = Inr 6 \<and> window_size_func (100 * 1) 1 1 10 1 = Inr 5"
  using window_size_func_tokens [where bw = 5 and k = 0 and batch_size = 10 and bm = 2
      and bsm = 3 and ps = None and ffn = "None :: (int \<Rightarrow> length_value) option"
      and lfn = "None :: (int \<Rightarrow> int) option"]
    window_size_func_tokens [where bw = 10 and k = 1 and batch_size = 100 and bm = 1
      and bsm = 1 and ps = None and ffn = "None :: (int \<Rightarrow> length_value) option"
      and lfn = "None :: (int \<Rightarrow> int) option"]
  by (simp add: round_up_to_multiple_def)

text \<open>
  C1. With \<open>batch_size = 8\<close>, \<open>batch_multiplier = 1\<close>, \<open>batch_size_multiple = 4\<close>,
  \<open>bucket_width = 1\<close> and key 1 the raw size 8 is an exact multiple of the product 4.
  Rounding up to the nearest multiple leaves 8; \<open>_window_size_func\<close> returns 12, because
  \<open>size + required_multiple - size % required_multiple\<close> adds a whole multiple when the
  remainder is 0.
\<close>

theorem window_size_exact_multiple:
  "(8 * 1) div (1 * 1) mod (1 * 4) = (0::int) \<and>
   window_size_func (8 * 1) 1 4 1 1 = Inr 12 \<and>
   specified_window_size 8 1 4 1 1 = 8"
  by (simp add: window_size_func_def floordiv_def specified_window_size_def
        round_up_to_multiple_def Let_def)

lemma key_func_nonneg:
  "key_func bw ffn lfn ex = Inr key \<Longrightarrow> 0 \<le> key"
  by (auto simp: key_func_def bucket_step_def floordiv_def Let_def
        split: option.splits length_value.splits if_splits sum.splits)

lemma key_func_width_one:
  "key_func 1 ffn lfn ex =
     Inr (max (max 0 (case ffn of None \<Rightarrow> 0
                      | Some f \<Rightarrow> (case f (fst ex) of Single l \<Rightarrow> l | Multi ls \<Rightarrow> 0)))
              (case lfn of None \<Rightarrow> 0 | Some g \<Rightarrow> g (snd ex)))"
  by (auto simp: key_func_def bucket_step_def floordiv_def Let_def
        split: option.splits length_value.splits)

lemma within_limits_Single: "within_limits (Single l) m \<Longrightarrow> 0 < l"
  by (simp add: within_limits_def lengths_of_def)

lemma length_predicate_positive:
  assumes "length_predicate mf ml ffn lfn ex"
  shows "(\<forall>g. lfn = Some g \<longrightarrow> 0 < g (snd ex)) \<and>
         (\<forall>f l. ffn = Some f \<and> f (fst ex) = Single l \<longrightarrow> 0 < l)"
proof -
  have "length_predicate mf ml ffn lfn (fst ex, snd ex)" using assms by simp
  then have sides: "side_retained ffn mf (fst ex)"
      "side_retained (map_option (\<lambda>g l. Single (g l)) lfn) ml (snd ex)"
    unfolding length_predicate_sides by simp_all
  show ?thesis
    using sides within_limits_Single
    by (auto simp: side_retained_def split: option.splits)
qed

lemma key_func_effective:
  "key_func 1 ffn lfn ex = Inr (effective_length ffn lfn ex)"
  by (simp add: key_func_width_one effective_length_def)

lemma tokens_zero_key:
  "kf x = Inr 0 \<Longrightarrow> wsf 0 = Inl InvalidArgumentError \<Longrightarrow>
   group_by_window kf rf wsf (x # xs) = Inl InvalidArgumentError"
  by (simp add: group_by_window_def)

text \<open>
  C6 (amended). With \<open>bucket_width > 1\<close> and a key \<open>k \<ge> 0\<close> the denominator
  \<open>(k + 1) * bucket_width\<close> is positive and the window size is computed; every key of
  \<open>_key_func\<close> is non-negative. With \<open>bucket_width = 1\<close> the division fails (with the
  library's error for a tensor division by zero) exactly at key 0, and the key of an
  example is its effective length. An example that passed the length filter has a positive
  effective length when a length function is set whose scalar length enters the key: the
  labels length function, or a features length function that returns a single length. For
  a positive effective length the window size is computed. With only a list valued
  features length the effective length is 0 whatever the filter did, and with no length
  function the key is 0 and the transformation for \<open>batch_type = "tokens"\<close> fails on the
  first example.
\<close>

theorem window_size_division_safety:
  "(1 < bw \<and> 0 \<le> k \<longrightarrow>
      0 < (k + 1) * bw \<and> (\<exists>w. window_size_func B bm bsm bw k = Inr w)) \<and>
   (window_size_func B bm bsm 1 k = Inl InvalidArgumentError \<longleftrightarrow> k = 0) \<and>
   (key_func bw ffn lfn ex = Inr key \<longrightarrow> 0 \<le> key) \<and>
   key_func 1 ffn lfn ex = Inr (effective_length ffn lfn ex) \<and>
   (length_predicate mf ml ffn lfn ex \<and>
      (lfn \<noteq> None \<or> (\<exists>f l. ffn = Some f \<and> f (fst ex) = Single l)) \<longrightarrow>
      0 < effective_length ffn lfn ex) \<and>
   (0 < effective_length ffn lfn ex \<longrightarrow>
      (\<exists>w. window_size_func B bm bsm 1 (effective_length ffn lfn ex) = Inr w)) \<and>
   (lfn = None \<and> (\<exists>f ls. ffn = Some f \<and> f (fst ex) = Multi ls) \<longrightarrow>
      effective_length ffn lfn ex = 0) \<and>
   key_func 1 None None ex = Inr 0 \<and>
   window_size_func B bm bsm 1 0 = Inl InvalidArgumentError \<and>
   (\<exists>t. batch_parallel_dataset b ''tokens'' bm bsm (Some 1) None None ps = Inr t \<and>
      t (ex # rest) = Inl InvalidArgumentError)"
proof -
  have wide: "1 < bw \<and> 0 \<le> k \<longrightarrow>
      0 < (k + 1) * bw \<and> (\<exists>w. window_size_func B bm bsm bw k = Inr w)"
  proof (intro impI, elim conjE)
    assume h: "1 < bw" "0 \<le> k"
    then have pos: "0 < (k + 1) * bw" by simp
    then have "(if 1 < bw then k + 1 else k) * bw \<noteq> 0" using h by simp
    from window_size_func_eq [OF this] pos
    show "0 < (k + 1) * bw \<and> (\<exists>w. window_size_func B bm bsm bw k = Inr w)" by blast
  qed
  have one: "window_size_func B bm bsm 1 k = Inl InvalidArgumentError \<longleftrightarrow> k = 0"
    by (simp add: window_size_func_def floordiv_def Let_def)
  have nonneg: "key_func bw ffn lfn ex = Inr key \<longrightarrow> 0 \<le> key"
    using key_func_nonneg by blast
  have eff: "key_func 1 ffn lfn ex = Inr (effective_length ffn lfn ex)"
    by (rule key_func_effective)
  have filtered: "length_predicate mf ml ffn lfn ex \<and>
      (lfn \<noteq> None \<or> (\<exists>f l. ffn = Some f \<and> f (fst ex) = Single l)) \<longrightarrow>
      0 < effective_length ffn lfn ex"
  proof (intro impI, elim conjE)
    assume p: "length_predicate mf ml ffn lfn ex"
      and s: "lfn \<noteq> None \<or> (\<exists>f l. ffn = Some f \<and> f (fst ex) = Single l)"
    show "0 < effective_length ffn lfn ex"
      using length_predicate_positive [OF p] s
      unfolding effective_length_def by (auto split: option.splits)
  qed
  have safe: "0 < effective_length ffn lfn ex \<longrightarrow>
      (\<exists>w. window_size_func B bm bsm 1 (effective_length ffn lfn ex) = Inr w)"
  proof
    assume "0 < effective_length ffn lfn ex"
    then have "(if 1 < (1::int) then effective_length ffn lfn ex + 1
                else effective_length ffn lfn ex) * 1 \<noteq> 0" by simp
    from window_size_func_eq [OF this]
    show "\<exists>w. window_size_func B bm bsm 1 (effective_length ffn lfn ex) = Inr w" by blast
  qed
  have listed: "lfn = None \<and> (\<exists>f ls. ffn = Some f \<and> f (fst ex) = Multi ls) \<longrightarrow>
      effective_length ffn lfn ex = 0"
    by (auto simp: effective_length_def)
  have free: "key_func 1 None None ex = Inr 0"
    by (simp add: key_func_def Let_def)
  have zero: "window_size_func B bm bsm 1 0 = Inl InvalidArgumentError" for B
    by (simp add: window_size_func_def floordiv_def)
  have reach: "\<exists>t. batch_parallel_dataset b ''tokens'' bm bsm (Some 1) None None ps = Inr t \<and>
      t (ex # rest) = Inl InvalidArgumentError"
    using free zero by (simp add: batch_parallel_dataset_def Let_def tokens_zero_key)
  from wide one nonneg eff filtered safe listed free zero reach show ?thesis
    by (intro conjI)
qed

theorem window_size_division_safety_witness:
  "window_size_func 100 1 1 10 0 = Inr 10 \<and>
   key_func 1 (Some (\<lambda>f. Single (int (length f)))) (Some (\<lambda>l. int (length l)))
     ([1, 2, 3 :: int], [4, 5 :: int]) = Inr 3 \<and>
   effective_length (Some (\<lambda>f. Single (int (length f)))) (Some (\<lambda>l. int (length l)))
     ([1, 2, 3 :: int], [4, 5 :: int]) = 3 \<and>
   window_size_func 100 1 1 1 3 = Inr 33 \<and>
   window_size_func 100 1 1 1 0 = Inl InvalidArgumentError"
  using window_size_division_safety
    [where bw = 10 and k = 0 and B = 100 and bm = 1 and bsm = 1
       and ffn = "Some (\<lambda>f. Single (int (length f)))" and lfn = "Some (\<lambda>l. int (length l))"
       and ex = "([1, 2, 3 :: int], [4, 5 :: int])" and key = 3
       and mf = "Maximum None" and ml = "Maximum None" and b = 100 and ps = None
       and rest = "[]"]
  by (simp add: window_size_func_def floordiv_def key_func_def bucket_step_def
        effective_length_def)

text \<open>
  Two source features with lengths 3 and 4 under a features length function, no labels
  length function: the example passes the length filter, its key at \<open>bucket_width = 1\<close> is
  0, and the transformation for \<open>batch_type = "tokens"\<close> fails on the division by
  \<open>0 * 1\<close>, although the filter was passed and a length function is set.
\<close>

theorem window_size_division_counterexample:
  "filter_examples_by_length (Maximum None) (Maximum None) (Some Multi) None
     [([3, 4], 0 :: int)] = [([3, 4], 0)] \<and>
   key_func 1 (Some Multi) None ([3, 4], 0 :: int) = Inr 0 \<and>
   window_size_func (100 * 1) 1 1 1 0 = Inl InvalidArgumentError \<and>
   (case batch_parallel_dataset 100 ''tokens'' 1 1 (Some 1) (Some Multi)
           (None :: (int \<Rightarrow> int) option) None of
      Inl e \<Rightarrow> False
    | Inr transformation \<Rightarrow> transformation [([3, 4], 0)] = Inl InvalidArgumentError)"
  by (simp add: filter_examples_by_length_def length_predicate_def length_constraints_def
        lengths_of_def maxima_of_def reduce_all_def key_func_def window_size_func_def
        floordiv_def batch_parallel_dataset_def group_by_window_def Let_def)

lemma chunks_Nil [simp]: "chunks n [] = []"
  by (simp add: chunks.simps)

lemma chunks_zero [simp]: "chunks 0 xs = []"
  by (simp add: chunks.simps)

lemma chunks_step: "0 < n \<Longrightarrow> xs \<noteq> [] \<Longrightarrow> chunks n xs = take n xs # chunks n (drop n xs)"
  by (subst chunks.simps) simp

lemma concat_chunks: "0 < n \<Longrightarrow> concat (chunks n xs) = xs"
proof (induction n xs rule: chunks.induct)
  case (1 n xs)
  show ?case
  proof (cases "xs = []")
    case True then show ?thesis by simp
  next
    case False
    with 1 show ?thesis by (simp add: chunks_step)
  qed
qed


lemma batch_dataset_nonempty:
  "0 < b \<Longrightarrow> xs \<noteq> [] \<Longrightarrow> batch_dataset b None xs = Inr (chunks (nat b) xs)"
  by (cases xs) (simp_all add: batch_dataset_def get_output_shapes_def)

lemma flush_groups_concat:
  assumes "\<And>k buf. buf \<noteq> [] \<Longrightarrow> \<exists>out. rf k buf = Inr out \<and> concat out = buf"
    and "\<forall>(k, buf) \<in> set gs. buf \<noteq> []"
  shows "\<exists>out. flush_groups rf gs = Inr out \<and> concat out = concat (map snd gs)"
  using assms(2)
proof (induction gs)
  case Nil then show ?case by simp
next
  case (Cons g gs)
  obtain k buf where g: "g = (k, buf)" by (cases g)
  with Cons.prems have "buf \<noteq> []" by simp
  from assms(1) [OF this] obtain out where out: "rf k buf = Inr out" "concat out = buf" by blast
  from Cons obtain rest where rest: "flush_groups rf gs = Inr rest"
      "concat rest = concat (map snd gs)" by auto
  show ?case using g out rest by simp
qed

lemma pending_delete:
  "distinct (map fst gs) \<Longrightarrow>
   mset (concat (map snd gs))
     = mset (case map_of gs k of None \<Rightarrow> [] | Some g \<Rightarrow> g)
       + mset (concat (map snd (AList.delete k gs)))"
proof (induction gs)
  case Nil then show ?case by simp
next
  case (Cons g gs)
  obtain k' buf where g: "g = (k', buf)" by (cases g)
  show ?case
  proof (cases "k' = k")
    case True
    with Cons.prems g have "k \<notin> fst ` set gs" by auto
    then show ?thesis using g True by simp
  next
    case False
    with Cons g show ?thesis by simp
  qed
qed

lemma pending_update:
  "mset (concat (map snd (AList.update k ((case map_of gs k of None \<Rightarrow> [] | Some g \<Rightarrow> g) @ [x]) gs)))
     = mset (concat (map snd gs)) + {#x#}"
  by (induction gs) auto

lemma nonempty_update:
  "\<forall>(k, buf) \<in> set gs. buf \<noteq> [] \<Longrightarrow> v \<noteq> [] \<Longrightarrow>
   \<forall>(k, buf) \<in> set (AList.update key v gs). buf \<noteq> []"
  by (induction gs) auto

lemma nonempty_delete:
  "\<forall>(k, buf) \<in> set gs. buf \<noteq> [] \<Longrightarrow> \<forall>(k, buf) \<in> set (AList.delete key gs). buf \<noteq> []"
  by (induction gs) auto

lemma group_loop_mset:
  assumes kf: "\<And>x. x \<in> set xs \<Longrightarrow> \<exists>k. kf x = Inr k"
    and wsf: "\<And>k. \<exists>w. wsf k = Inr w \<and> 0 < w"
    and rf: "\<And>k buf. buf \<noteq> [] \<Longrightarrow> \<exists>out. rf k buf = Inr out \<and> concat out = buf"
    and inv: "distinct (map fst gs)" "\<forall>(k, buf) \<in> set gs. buf \<noteq> []"
  shows "\<exists>out. group_loop kf rf wsf gs xs = Inr out \<and>
           mset (concat out) = mset (concat (map snd gs)) + mset xs"
  using kf inv
proof (induction xs arbitrary: gs)
  case Nil
  from flush_groups_concat [of rf gs, OF rf Nil.prems(3)]
  show ?case by auto
next
  case (Cons x xs)
  obtain k where k: "kf x = Inr k" using Cons.prems(1) by auto
  obtain w where w: "wsf k = Inr w" "0 < w" using wsf by blast
  let ?window = "(case map_of gs k of None \<Rightarrow> [] | Some g \<Rightarrow> g) @ [x]"
  have kf': "\<And>y. y \<in> set xs \<Longrightarrow> \<exists>k. kf y = Inr k" using Cons.prems(1) by auto
  show ?case
  proof (cases "w \<le> int (length ?window)")
    case True
    obtain out where out: "rf k ?window = Inr out" "concat out = ?window"
      using rf [of ?window k] by auto
    have "distinct (map fst (AList.delete k gs))"
      using Cons.prems(2) by (rule distinct_delete)
    moreover have "\<forall>(k, buf) \<in> set (AList.delete k gs). buf \<noteq> []"
      using Cons.prems(3) by (rule nonempty_delete)
    ultimately obtain rest where rest: "group_loop kf rf wsf (AList.delete k gs) xs = Inr rest"
        "mset (concat rest) = mset (concat (map snd (AList.delete k gs))) + mset xs"
      using Cons.IH [OF kf'] by blast
    have "group_loop kf rf wsf gs (x # xs) = Inr (out @ rest)"
      using k w True out rest by (simp add: Let_def)
    moreover have "mset (concat (out @ rest)) = mset (concat (map snd gs)) + mset (x # xs)"
      using out rest pending_delete [OF Cons.prems(2), of k] by simp
    ultimately show ?thesis by blast
  next
    case False
    have "distinct (map fst (AList.update k ?window gs))"
      using Cons.prems(2) by (rule distinct_update)
    moreover have "\<forall>(k, buf) \<in> set (AList.update k ?window gs). buf \<noteq> []"
      using Cons.prems(3) by (rule nonempty_update) simp
    ultimately obtain rest where rest:
        "group_loop kf rf wsf (AList.update k ?window gs) xs = Inr rest"
        "mset (concat rest) = mset (concat (map snd (AList.update k ?window gs))) + mset xs"
      using Cons.IH [OF kf'] by blast
    have "group_loop kf rf wsf gs (x # xs) = Inr rest"
      using k w False rest by (simp add: Let_def)
    moreover have "mset (concat rest) = mset (concat (map snd gs)) + mset (x # xs)"
      using rest pending_update [of k gs x] by simp
    ultimately show ?thesis by blast
  qed
qed

lemma sort_key_distinct:
  assumes m: "mset xs = mset ys" and s: "sorted (map f ys)" and d: "distinct (map f ys)"
  shows "sort_key f xs = ys"
proof (rule properties_for_sort_key)
  show "mset ys = mset xs" using m by simp
  show "sorted (map f ys)" by (rule s)
  fix k assume k: "k \<in> set ys"
  have ys: "filter (\<lambda>x. f k = f x) ys = [k]"
    using d k
  proof (induction ys)
    case Nil then show ?case by simp
  next
    case (Cons y ys)
    show ?case
    proof (cases "y = k")
      case True
      then have "\<forall>x \<in> set ys. f x \<noteq> f k" using Cons.prems by (auto simp: image_iff)
      then have "filter (\<lambda>x. f k = f x) ys = []" by (auto simp: filter_empty_conv)
      with True show ?thesis by simp
    next
      case False
      then have "k \<in> set ys" using Cons.prems by simp
      moreover have "f y \<noteq> f k" using Cons.prems calculation by (auto simp: image_iff)
      ultimately show ?thesis using Cons by simp
    qed
  qed
  define zs where "zs = filter (\<lambda>x. f k = f x) xs"
  have "mset zs = mset (filter (\<lambda>x. f k = f x) ys)"
    using m by (simp add: zs_def)
  then have "mset zs = {#k#}" by (simp only: ys mset.simps add_mset_commute)
  then have "zs = [k]" by (simp only: mset_single_iff)
  then have "filter (\<lambda>x. f k = f x) xs = [k]" by (simp add: zs_def)
  with ys show "filter (\<lambda>x. f k = f x) ys = filter (\<lambda>x. f k = f x) xs" by simp
qed


lemma map_ds_total:
  assumes "\<And>x. x \<in> set xs \<Longrightarrow> f x = Inr (g x)"
  shows "map_ds f xs = Inr (map g xs)"
  using assms by (induction xs) simp_all

lemma inference_key_func_total:
  "0 < bw \<Longrightarrow> \<exists>k. inference_key_func lf bw x = Inr k"
  by (simp add: inference_key_func_def floordiv_def Let_def split: length_value.splits)

text \<open>
  C5. With \<open>bucket_width\<close> set and positive, a length function, a positive batch size and
  a non-empty dataset of dictionaries, the pipeline succeeds. The elements it groups are
  the processed input elements, each tagged under \<open>"index"\<close> with its zero-based position in
  the input order; apart from the tag they are the processed input elements. Sorting the
  elements of all emitted batches by their \<open>"index"\<close> gives the tagged elements in the
  input order, whatever the grouping into buckets did to the order.
\<close>

theorem inference_pipeline_index_order:
  assumes width: "0 < bw" and size: "0 < batch_size" and nonempty: "dataset \<noteq> []"
    and dicts: "\<forall>x \<in> set (case process_fn of None \<Rightarrow> dataset | Some f \<Rightarrow> map f dataset).
                  is_dict x"
  shows "\<exists>indexed batches.
      map_ds (\<lambda>(index, x). inject_index index x)
        (enumerate_dataset (case process_fn of None \<Rightarrow> dataset | Some f \<Rightarrow> map f dataset))
        = Inr indexed \<and>
      map index_of indexed = map int [0 ..< length dataset] \<and>
      map drop_index indexed
        = map drop_index (case process_fn of None \<Rightarrow> dataset | Some f \<Rightarrow> map f dataset) \<and>
      inference_pipeline batch_size process_fn (Some bw) (Some length_fn) dataset = Inr batches \<and>
      sort_key index_of (concat batches) = indexed"
proof -
  define processed where
    "processed = (case process_fn of None \<Rightarrow> dataset | Some f \<Rightarrow> map f dataset)"
  define tag :: "int \<times> element \<Rightarrow> element" where
    "tag = (\<lambda>(i, x). case x of Dict d \<Rightarrow> Dict (AList.update ''index'' (Scalar i) d)
                      | Plain t \<Rightarrow> Plain t)"
  define indexed where "indexed = map tag (enumerate_dataset processed)"
  have len: "length processed = length dataset"
    by (simp add: processed_def split: option.splits)
  have ne: "processed \<noteq> []" using nonempty len by auto
  have all_dict: "\<forall>x \<in> set processed. is_dict x" using dicts by (simp add: processed_def)
  have enum_set: "snd p \<in> set processed" if "p \<in> set (enumerate_dataset processed)" for p
  proof -
    obtain i x where "p = (i, x)" by (cases p)
    with that show ?thesis by (auto simp: enumerate_dataset_def dest: set_zip_rightD)
  qed
  have inj: "(case p of (index, x) \<Rightarrow> inject_index index x) = Inr (tag p)"
    if "p \<in> set (enumerate_dataset processed)" for p
  proof -
    obtain i x where "p = (i, x)" by (cases p)
    with enum_set [OF that] all_dict show ?thesis
      by (auto simp: inject_index_def tag_def is_dict_def split: element.splits)
  qed
  have tagged: "map_ds (\<lambda>(index, x). inject_index index x) (enumerate_dataset processed)
      = Inr indexed"
    unfolding indexed_def by (rule map_ds_total) (rule inj)
  have len_indexed: "length indexed = length dataset"
    by (simp add: indexed_def enumerate_dataset_def len)
  have nth_indexed: "indexed ! i = tag (int i, processed ! i)" if "i < length dataset" for i
    using that len by (simp add: indexed_def enumerate_dataset_def)
  have nth_dict: "is_dict (processed ! i)" if "i < length dataset" for i
    using that len all_dict by simp
  have idx: "map index_of indexed = map int [0 ..< length dataset]"
  proof (rule nth_equalityI)
    show "length (map index_of indexed) = length (map int [0 ..< length dataset])"
      by (simp add: len_indexed)
    fix i assume "i < length (map index_of indexed)"
    then have i: "i < length dataset" by (simp add: len_indexed)
    show "map index_of indexed ! i = map int [0 ..< length dataset] ! i"
      using i nth_indexed [OF i] nth_dict [OF i] len_indexed
      by (auto simp: index_of_def tag_def is_dict_def update_conv' split: element.splits)
  qed
  have dropped: "map drop_index indexed = map drop_index processed"
  proof (rule nth_equalityI)
    show "length (map drop_index indexed) = length (map drop_index processed)"
      by (simp add: len_indexed len)
    fix i assume "i < length (map drop_index indexed)"
    then have i: "i < length dataset" by (simp add: len_indexed)
    show "map drop_index indexed ! i = map drop_index processed ! i"
      using i nth_indexed [OF i] len_indexed len
      by (auto simp: drop_index_def tag_def delete_update_same split: element.splits)
  qed
  have shapes: "get_output_shapes processed = Inr (hd processed)"
    using ne by (cases processed) (simp_all add: get_output_shapes_def)
  have sample: "is_dict (hd processed)" using ne all_dict by simp
  have reduce: "\<exists>out. batch_dataset batch_size None buf = Inr out \<and> concat out = buf"
    if "buf \<noteq> []" for buf :: "element list"
    using that size by (simp add: batch_dataset_nonempty concat_chunks)
  obtain batches where batches:
      "group_loop (inference_key_func length_fn bw)
         (\<lambda>unused_key. batch_dataset batch_size None) (\<lambda>key. Inr batch_size) [] indexed
       = Inr batches"
      "mset (concat batches) = mset (concat (map snd [])) + mset indexed"
    using group_loop_mset [of indexed "inference_key_func length_fn bw"
        "\<lambda>key. Inr batch_size" "\<lambda>unused_key. batch_dataset batch_size None" "[]"]
      inference_key_func_total [OF width] size reduce
    by auto
  have run: "inference_pipeline batch_size process_fn (Some bw) (Some length_fn) dataset
      = Inr batches"
    using width shapes sample tagged batches(1)
    unfolding inference_pipeline_def group_by_window_def Let_def processed_def [symmetric]
    by simp
  have sorted: "sort_key index_of (concat batches) = indexed"
  proof (rule sort_key_distinct)
    show "mset (concat batches) = mset indexed" using batches(2) by simp
    show "sorted (map index_of indexed)"
      unfolding idx by (simp add: sorted_map strict_mono_on_imp_mono_on sorted_wrt_map)
    show "distinct (map index_of indexed)"
      unfolding idx by (simp add: distinct_map)
  qed
  from tagged idx dropped run sorted show ?thesis
    unfolding processed_def by blast
qed



theorem inference_pipeline_index_order_witness:
  "inference_pipeline 2 None (Some 2) (Some ids_length)
     [Dict [(''ids'', Sequence [5])], Dict [(''ids'', Sequence [6, 7, 8])],
      Dict [(''ids'', Sequence [9, 1])], Dict [(''ids'', Sequence [4])]]
     = Inr [[Dict [(''ids'', Sequence [6, 7, 8]), (''index'', Scalar 1)],
             Dict [(''ids'', Sequence [9, 1]), (''index'', Scalar 2)]],
            [Dict [(''ids'', Sequence [5]), (''index'', Scalar 0)],
             Dict [(''ids'', Sequence [4]), (''index'', Scalar 3)]]] \<and>
   sort_key index_of
     [Dict [(''ids'', Sequence [6, 7, 8]), (''index'', Scalar 1)],
      Dict [(''ids'', Sequence [9, 1]), (''index'', Scalar 2)],
      Dict [(''ids'', Sequence [5]), (''index'', Scalar 0)],
      Dict [(''ids'', Sequence [4]), (''index'', Scalar 3)]]
     = [Dict [(''ids'', Sequence [5]), (''index'', Scalar 0)],
        Dict [(''ids'', Sequence [6, 7, 8]), (''index'', Scalar 1)],
        Dict [(''ids'', Sequence [9, 1]), (''index'', Scalar 2)],
        Dict [(''ids'', Sequence [4]), (''index'', Scalar 3)]]"
  using inference_pipeline_index_order
    [where bw = 2 and batch_size = 2 and process_fn = None and length_fn = ids_length
       and dataset = "[Dict [(''ids'', Sequence [5])], Dict [(''ids'', Sequence [6, 7, 8])],
                       Dict [(''ids'', Sequence [9, 1])], Dict [(''ids'', Sequence [4])]]"]
  by (simp add: inference_pipeline_def get_output_shapes_def is_dict_def enumerate_dataset_def
        inject_index_def group_by_window_def inference_key_func_def floordiv_def ids_length_def
        batch_dataset_def chunks.simps upt_rec Let_def index_of_def)







lemma concat_blocks_take:
  "concat (map (\<lambda>i. take s (drop (i * s) ds)) [0 ..< n]) = take (n * s) ds"
proof (induction n)
  case 0 then show ?case by simp
next
  case (Suc n)
  have "Suc n * s = n * s + s" by simp
  then have "take (Suc n * s) ds = take (n * s) ds @ take s (drop (n * s) ds)"
    by (simp only: take_add)
  with Suc show ?case by simp
qed

lemma mset_concat_map_permuted:
  assumes "mset ys = mset xs"
  shows "mset (concat (map f ys)) = mset (concat (map f xs))"
proof -
  have "mset (concat (map f zs)) = (\<Sum>z \<in># mset zs. mset (f z))" for zs
    by (induction zs) simp_all
  then show ?thesis using assms by simp
qed

lemma linspace_offsets_divisible:
  assumes "0 < k"
  shows "linspace_offsets (k * s) k = map (\<lambda>i. int i * s) [0 ..< nat k]"
  using assms by (simp add: linspace_offsets_def mult.left_commute)

text \<open>
  When \<open>shard_size\<close> divides \<open>dataset_size\<close> the offsets are the multiples of \<open>shard_size\<close>,
  the shards tile the dataset, and for every outcome of the shuffle that is a reordering
  the output is a permutation of the dataset.
\<close>

lemma random_shard_divisible:
  assumes s: "0 < s" and k: "0 < k" and len: "int (length ds) = k * s"
    and perm: "\<And>xs. mset (outcome xs) = mset xs"
  shows "\<exists>t out. random_shard s (k * s) = Inr t \<and> t outcome ds = Inr out \<and> mset out = mset ds"
proof -
  have "(- (k * s)) div s = - k" using s by (simp add: dvd_neg_div)
  then have num: "- ((- (k * s)) div s) = k" by simp
  let ?f = "\<lambda>offset. take_ds s (skip_ds offset ds)"
  let ?offsets = "map (\<lambda>i. int i * s) [0 ..< nat k]"
  have run: "random_shard s (k * s) =
      Inr (\<lambda>outcome dataset.
             case shuffle_ds k outcome ?offsets of
               Inl e \<Rightarrow> Inl e
             | Inr sharded_dataset \<Rightarrow>
                 Inr (concat (map (\<lambda>offset. take_ds s (skip_ds offset dataset))
                                sharded_dataset)))"
    using s k num by (simp add: random_shard_def Let_def linspace_offsets_divisible)
  have block: "take_ds s (skip_ds (int i * s) ds) = take (nat s) (drop (i * nat s) ds)" for i
  proof -
    have "0 \<le> int i * s" using s by simp
    moreover have "nat (int i * s) = i * nat s" using s by (simp add: nat_mult_distrib)
    ultimately show ?thesis using s by (simp add: take_ds_def skip_ds_def mult_less_0_iff)
  qed
  have "concat (map ?f ?offsets)
      = concat (map (\<lambda>i. take (nat s) (drop (i * nat s) ds)) [0 ..< nat k])"
    by (simp add: comp_def block)
  also have "\<dots> = take (nat k * nat s) ds" by (rule concat_blocks_take)
  also have "\<dots> = ds"
  proof -
    have "nat k * nat s = length ds"
      using len s k by (metis nat_int nat_mult_distrib less_imp_le)
    then show ?thesis by simp
  qed
  finally have ordered: "concat (map ?f ?offsets) = ds" .
  have permuted: "mset (concat (map ?f (outcome ?offsets))) = mset ds"
    using mset_concat_map_permuted [OF perm, of ?f ?offsets] ordered by simp
  define t :: "(int list \<Rightarrow> int list) \<Rightarrow> 'a list \<Rightarrow> error + 'a list" where
    "t = (\<lambda>outcome dataset.
             case shuffle_ds k outcome ?offsets of
               Inl e \<Rightarrow> Inl e
             | Inr sharded_dataset \<Rightarrow>
                 Inr (concat (map (\<lambda>offset. take_ds s (skip_ds offset dataset))
                                sharded_dataset)))"
  have "random_shard s (k * s) = Inr t" using run by (simp add: t_def)
  moreover have "t outcome ds = Inr (concat (map ?f (outcome ?offsets)))"
    using k by (simp add: t_def shuffle_ds_def)
  ultimately show ?thesis using permuted by blast
qed

text \<open>
  C3. For \<open>dataset_size = 10\<close> and \<open>shard_size = 3\<close> there are 4 shards and the evenly
  spaced offsets are 0, 2, 5, 7, less than \<open>shard_size\<close> apart; each shard still takes 3
  elements, so the shards overlap. Even with the offsets left in order the output over
  the dataset 0, ..., 9 has 12 elements and holds 2 and 7 twice: it is not a permutation.
\<close>

theorem random_shard_overlapping_shards:
  "linspace_offsets 10 (- ((- 10) div 3)) = [0, 2, 5, 7] \<and>
   (case random_shard 3 10 of
      Inl e \<Rightarrow> False
    | Inr transformation \<Rightarrow>
        transformation id [0, 1, 2, 3, 4, 5, 6, 7, 8, 9 :: int]
          = Inr [0, 1, 2, 2, 3, 4, 5, 6, 7, 7, 8, 9])"
  by (simp add: random_shard_def linspace_offsets_def shuffle_ds_def take_ds_def skip_ds_def
        Let_def upt_rec)

text \<open>
  The configuration errors that are raised: with \<open>bucket_width\<close> set, every batch type
  other than \<open>"examples"\<close> and \<open>"tokens"\<close> is a \<open>ValueError\<close> of \<open>batch_parallel_dataset\<close>, for
  every dataset, and the two batch types raise nothing; with \<open>bucket_width\<close> set and
  positive, \<open>inference_pipeline\<close> raises \<open>ValueError\<close> without a length function and on
  a dataset whose sample is not a dictionary.
\<close>

lemma configuration_errors:
  "(bt \<noteq> ''examples'' \<and> bt \<noteq> ''tokens'' \<longrightarrow>
      batch_parallel_dataset b bt bm bsm (Some bw) ffn lfn ps = Inl ValueError) \<and>
   (bt = ''examples'' \<or> bt = ''tokens'' \<longrightarrow>
      (\<exists>t. batch_parallel_dataset b bt bm bsm bwo ffn lfn ps = Inr t)) \<and>
   (0 < bw \<longrightarrow> inference_pipeline b pf (Some bw) None ds = Inl ValueError) \<and>
   (0 < bw \<and> pf = None \<and> ds = Plain x # rest \<longrightarrow>
      inference_pipeline b pf (Some bw) (Some lf) ds = Inl ValueError)"
  by (auto simp: batch_parallel_dataset_def inference_pipeline_def get_output_shapes_def
        is_dict_def Let_def split: option.splits)

text \<open>
  C2. With \<open>bucket_width\<close> unset, \<open>batch_parallel_dataset\<close> returns the flat batching
  transformation before it looks at \<open>batch_type\<close>: the unknown batch type \<open>"sentences"\<close>
  raises nothing and the dataset is batched. With \<open>bucket_width\<close> set the same call raises
  \<open>ValueError\<close>.
\<close>

theorem batch_parallel_dataset_unchecked_batch_type:
  "(case batch_parallel_dataset 2 ''sentences'' 1 1 None
           (None :: (int \<Rightarrow> length_value) option) (None :: (int \<Rightarrow> int) option) None of
      Inl e \<Rightarrow> False
    | Inr transformation \<Rightarrow>
        transformation [(1, 2), (3, 4), (5, 6)] = Inr [[(1, 2), (3, 4)], [(5, 6)]]) \<and>
   (case batch_parallel_dataset 2 ''sentences'' 1 1 (Some 5)
           (None :: (int \<Rightarrow> length_value) option) (None :: (int \<Rightarrow> int) option) None of
      Inl e \<Rightarrow> e = ValueError
    | Inr (transformation :: (int \<times> int) list \<Rightarrow> error + (int \<times> int) list list) \<Rightarrow> False)"
  by (simp add: batch_parallel_dataset_def batch_dataset_def get_output_shapes_def
        chunks.simps Let_def)

lemma repeat_take_nonempty:
  assumes "\<And>e. epoch e = Inr (g e) \<and> g e \<noteq> []"
  shows "repeat_take epoch e n = Inr (concat (map g [e ..< e + n]))"
proof (induction n arbitrary: e)
  case 0 then show ?case by simp
next
  case (Suc n)
  have "[e ..< e + Suc n] = e # [Suc e ..< Suc e + n]" by (simp add: upt_rec)
  then show ?case using assms [of e] Suc [of "Suc e"] by simp
qed

lemma length_concat_nonempty:
  "(\<And>x. x \<in> set xss \<Longrightarrow> x \<noteq> []) \<Longrightarrow> length xss \<le> length (concat xss)"
proof (induction xss)
  case Nil then show ?case by simp
next
  case (Cons xs xss)
  then have "xs \<noteq> []" "length xss \<le> length (concat xss)" by auto
  then show ?case by (cases xs) simp_all
qed

lemma repeat_take_empty: "epoch e = Inr [] \<Longrightarrow> repeat_take epoch e n = Inr []"
  by (cases n) simp_all


text \<open>
  C8 (amended). With \<open>single_pass\<close> the output is one traversal of the finite source: a
  finite list of batches, and nothing more is delivered however long the consumer goes on.
  Without \<open>single_pass\<close> the repeat stage is applied. If every traversal yields at least
  one batch, the output never ends: after \<open>n\<close> traversals at least \<open>n\<close> batches have been
  delivered and the next traversal appends its batches. If the first traversal yields no
  batch, the repeated output is empty as well.
\<close>

theorem training_pipeline_repeat:
  fixes dataset :: "('f \<times> 'l) list"
    and b bm bsm ns si :: int and bt :: string and bw dsize sbs :: "int option"
    and pf :: "('f \<times> 'l \<Rightarrow> 'f \<times> 'l) option"
    and ffn :: "('f \<Rightarrow> length_value) option" and lfn :: "('l \<Rightarrow> int) option"
    and mf ml :: maximum_length
    and oo :: "nat \<Rightarrow> int list \<Rightarrow> int list"
    and eo :: "nat \<Rightarrow> ('f \<times> 'l) list \<Rightarrow> ('f \<times> 'l) list"
  defines "epoch \<equiv> \<lambda>e. training_epoch b bt bm bsm pf bw ffn lfn mf ml dsize ns si sbs
                          (oo e) (eo e) dataset"
  defines "output \<equiv> \<lambda>single_pass. training_pipeline b bt bm bsm pf bw ffn lfn mf ml
                          single_pass dsize ns si sbs oo eo dataset"
  shows "output True = Single_pass (epoch 0) \<and>
         (\<forall>n. 0 < n \<longrightarrow> delivered (output True) n = epoch 0) \<and>
         output False = Repeated epoch \<and>
         ((\<forall>e. \<exists>batches. epoch e = Inr batches \<and> batches \<noteq> []) \<longrightarrow>
            (\<forall>n. \<exists>out batches. delivered (output False) n = Inr out \<and> n \<le> length out \<and>
               epoch n = Inr batches \<and>
               delivered (output False) (Suc n) = Inr (out @ batches))) \<and>
         (epoch 0 = Inr [] \<longrightarrow> (\<forall>n. delivered (output False) n = Inr []))"
proof -
  have single: "output True = Single_pass (epoch 0)"
    by (simp add: output_def epoch_def training_pipeline_def)
  have finite: "\<forall>n. 0 < n \<longrightarrow> delivered (output True) n = epoch 0"
    by (simp add: single delivered_def)
  have repeated: "output False = Repeated epoch"
    by (simp add: output_def epoch_def training_pipeline_def)
  have forever: "(\<forall>e. \<exists>batches. epoch e = Inr batches \<and> batches \<noteq> []) \<longrightarrow>
            (\<forall>n. \<exists>out batches. delivered (output False) n = Inr out \<and> n \<le> length out \<and>
               epoch n = Inr batches \<and>
               delivered (output False) (Suc n) = Inr (out @ batches))"
  proof (intro impI allI)
    fix n
    assume "\<forall>e. \<exists>batches. epoch e = Inr batches \<and> batches \<noteq> []"
    then obtain g where g: "\<And>e. epoch e = Inr (g e) \<and> g e \<noteq> []" by metis
    have take: "delivered (output False) m = Inr (concat (map g [0 ..< m]))" for m
      using repeat_take_nonempty [of epoch g 0 m, OF g] by (simp add: repeated delivered_def)
    have "length (map g [0 ..< n]) \<le> length (concat (map g [0 ..< n]))"
      using g by (intro length_concat_nonempty) auto
    then have "n \<le> length (concat (map g [0 ..< n]))" by simp
    moreover have "delivered (output False) (Suc n) = Inr (concat (map g [0 ..< n]) @ g n)"
      by (simp add: take)
    ultimately show "\<exists>out batches. delivered (output False) n = Inr out \<and> n \<le> length out \<and>
               epoch n = Inr batches \<and>
               delivered (output False) (Suc n) = Inr (out @ batches)"
      using take [of n] g [of n] by blast
  qed
  have ends: "epoch 0 = Inr [] \<longrightarrow> (\<forall>n. delivered (output False) n = Inr [])"
    by (simp add: repeated delivered_def repeat_take_empty)
  from single finite repeated forever ends show ?thesis by (intro conjI)
qed

theorem training_pipeline_repeat_witness:
  "delivered (training_pipeline 2 ''examples'' 1 1 None None None None (Maximum None)
      (Maximum None) True None 1 0 None (\<lambda>e. id) (\<lambda>e. id)
      [(1 :: int, 2 :: int), (3, 4), (5, 6)]) 2
     = Inr [[(1, 2), (3, 4)], [(5, 6)]] \<and>
   delivered (training_pipeline 2 ''examples'' 1 1 None None None None (Maximum None)
      (Maximum None) False None 1 0 None (\<lambda>e. id) (\<lambda>e. id)
      [(1 :: int, 2 :: int), (3, 4), (5, 6)]) 2
     = Inr [[(1, 2), (3, 4)], [(5, 6)], [(1, 2), (3, 4)], [(5, 6)]]"
  using training_pipeline_repeat
    [where b = 2 and bt = "''examples''" and bm = 1 and bsm = 1
       and pf = "None :: (int \<times> int \<Rightarrow> int \<times> int) option" and bw = None
       and ffn = None and lfn = None and mf = "Maximum None" and ml = "Maximum None"
       and dsize = None and ns = 1 and si = 0 and sbs = None
       and oo = "\<lambda>e. id" and eo = "\<lambda>e. id" and dataset = "[(1, 2), (3, 4), (5, 6)]"]
  by (simp add: delivered_def training_pipeline_def training_epoch_def
        filter_examples_by_length_def batch_parallel_dataset_def batch_dataset_def
        get_output_shapes_def chunks.simps filter_irregular_batches_def
        numeral_2_eq_2 Let_def)

text \<open>
  One example, \<open>batch_size = 1\<close> and \<open>batch_multiplier = 2\<close>: the only batch has size 1 and
  is dropped by \<open>filter_irregular_batches\<close>, so the repeated output delivers nothing.
\<close>

theorem training_pipeline_repeat_counterexample:
  "delivered (training_pipeline 1 ''examples'' 2 1 None None None None (Maximum None)
      (Maximum None) False None 1 0 None (\<lambda>e. id) (\<lambda>e. id) [(1 :: int, 2 :: int)]) 3
     = Inr []"
  by (simp add: delivered_def training_pipeline_def training_epoch_def
        filter_examples_by_length_def batch_parallel_dataset_def batch_dataset_def
        get_output_shapes_def chunks.simps filter_irregular_batches_def
        irregular_predicate_def first_field_def numeral_3_eq_3 Let_def)

end
